theory Spec2Isabelle
  imports Main "HOL-Library.Sublist" "HOL-Library.Multiset"
begin

section \<open>CoffeeCanvas: the item pipeline of script.js\<close>

text \<open>
  A shallow embedding of \<^verbatim>\<open>src/script.js\<close>: the string helpers, the item source
  (\<^verbatim>\<open>fetchBatch\<close>), the persisted favorites and notes maps, the query engine
  (\<^verbatim>\<open>applySearch\<close>, \<^verbatim>\<open>applySort\<close>) and the event handlers \<^verbatim>\<open>onSearchInput\<close> and
  \<^verbatim>\<open>brew\<close>. Global variables and DOM elements become fields of one state record that
  every handler takes and returns; the clock, the random generator and the network are
  inputs.
\<close>

subsection \<open>Strings\<close>

text \<open>
  A JavaScript string is a sequence of UTF-16 code units. It is modelled as a
  \<^typ>\<open>string\<close>, the character with code \<open>n\<close> standing for the code unit \<open>n\<close>: the model
  covers the strings whose code units lie in U+0000..U+00FF. On that range
  \<^verbatim>\<open>String.prototype.trim\<close> strips TAB, LF, VT, FF, CR, SPACE and NBSP, and
  \<^verbatim>\<open>toLowerCase\<close> maps A..Z and U+00C0..U+00DE (without U+00D7) to the code unit 32 higher.
\<close>

definition isWhiteSpace :: "char \<Rightarrow> bool" where
  "isWhiteSpace c =
     (let n = (of_char c :: nat) in (9 \<le> n \<and> n \<le> 13) \<or> n = 32 \<or> n = 160)"

definition trim :: "string \<Rightarrow> string" where
  "trim s = rev (dropWhile isWhiteSpace (rev (dropWhile isWhiteSpace s)))"

definition toLowerCase_char :: "char \<Rightarrow> char" where
  "toLowerCase_char c =
     (let n = (of_char c :: nat) in
      if (65 \<le> n \<and> n \<le> 90) \<or> (192 \<le> n \<and> n \<le> 222 \<and> n \<noteq> 215)
      then char_of (n + 32) else c)"

definition toLowerCase :: "string \<Rightarrow> string" where
  "toLowerCase s = map toLowerCase_char s"

text \<open>
  \<^verbatim>\<open>function norm(str) { return (str ?? "").toString().toLowerCase().trim(); }\<close>
  An argument that is \<^verbatim>\<open>null\<close> or \<^verbatim>\<open>undefined\<close> is \<open>None\<close>.
\<close>

definition norm :: "string option \<Rightarrow> string" where
  "norm str = trim (toLowerCase (case str of None \<Rightarrow> [] | Some s \<Rightarrow> s))"

text \<open>\<^verbatim>\<open>hay.includes(needle)\<close>: the needle starts at some position of the haystack.\<close>

fun startsWith :: "string \<Rightarrow> string \<Rightarrow> bool" where
  "startsWith hay [] = True"
| "startsWith [] (c # cs) = False"
| "startsWith (h # hs) (c # cs) = (h = c \<and> startsWith hs cs)"

fun includesStr :: "string \<Rightarrow> string \<Rightarrow> bool" where
  "includesStr [] needle = (needle = [])"
| "includesStr (h # hs) needle = (startsWith (h # hs) needle \<or> includesStr hs needle)"

text \<open>
  \<^verbatim>\<open>/^[a-zA-Z0-9 _#-]+$/.test(s)\<close>: the string is not empty and every code unit is in
  the class.
\<close>

definition allowedSearchChar :: "char \<Rightarrow> bool" where
  "allowedSearchChar c =
     (let n = (of_char c :: nat) in
      (97 \<le> n \<and> n \<le> 122) \<or> (65 \<le> n \<and> n \<le> 90) \<or> (48 \<le> n \<and> n \<le> 57)
      \<or> c = CHR '' '' \<or> c = CHR ''_'' \<or> c = CHR ''#'' \<or> c = CHR ''-'')"

definition isValidSearch :: "string \<Rightarrow> bool" where
  "isValidSearch str =
     (if length (trim str) = 0 then True
      else trim str \<noteq> [] \<and> list_all allowedSearchChar (trim str))"

subsection \<open>Storage: favorites and notes\<close>

text \<open>
  \<^verbatim>\<open>localStorage\<close> holds the favorites map (\<^verbatim>\<open>{ [id]: true }\<close>) and the notes map
  (\<^verbatim>\<open>{ [id]: "note text" }\<close>) as JSON text. The model keeps the parsed object of each
  key, the text being what \<^verbatim>\<open>setFavoritesMap\<close> or \<^verbatim>\<open>setNotesMap\<close> wrote last:
  \<open>None\<close> when the key is absent or its text does not parse, so that
  \<^verbatim>\<open>loadJSON(key, {})\<close> gives the empty object. An object is a map from property
  names to values (the keys are item ids, \<^verbatim>\<open>cf_...\<close>, never a property name of
  \<^verbatim>\<open>Object.prototype\<close>); a favorites entry has the one value \<^verbatim>\<open>true\<close>.
\<close>

type_synonym favoritesMap = "string \<rightharpoonup> unit"
type_synonym notesMap = "string \<rightharpoonup> string"

record storage =
  ls_favorites :: "favoritesMap option"
  ls_notes :: "notesMap option"

definition loadJSON :: "'a option \<Rightarrow> 'a \<Rightarrow> 'a" where
  "loadJSON raw fallback = (case raw of None \<Rightarrow> fallback | Some v \<Rightarrow> v)"

definition getFavoritesMap :: "storage \<Rightarrow> favoritesMap" where
  "getFavoritesMap ls = loadJSON (ls_favorites ls) Map.empty"

definition setFavoritesMap :: "favoritesMap \<Rightarrow> storage \<Rightarrow> storage" where
  "setFavoritesMap m ls = ls\<lparr>ls_favorites := Some m\<rparr>"

definition isFavorite :: "storage \<Rightarrow> string \<Rightarrow> bool" where
  "isFavorite ls i = (getFavoritesMap ls i \<noteq> None)"

definition toggleFavorite :: "string \<Rightarrow> storage \<Rightarrow> storage" where
  "toggleFavorite i ls =
     (let fav = getFavoritesMap ls in
      if fav i \<noteq> None then setFavoritesMap (fav(i := None)) ls
      else setFavoritesMap (fav(i \<mapsto> ())) ls)"

definition getNotesMap :: "storage \<Rightarrow> notesMap" where
  "getNotesMap ls = loadJSON (ls_notes ls) Map.empty"

definition setNotesMap :: "notesMap \<Rightarrow> storage \<Rightarrow> storage" where
  "setNotesMap m ls = ls\<lparr>ls_notes := Some m\<rparr>"

text \<open>\<^verbatim>\<open>notes[id] || ""\<close>: an absent entry and an empty one both give the empty string.\<close>

definition noteOrEmpty :: "notesMap \<Rightarrow> string \<Rightarrow> string" where
  "noteOrEmpty notes i = (case notes i of None \<Rightarrow> [] | Some v \<Rightarrow> if v = [] then [] else v)"

definition getNote :: "storage \<Rightarrow> string \<Rightarrow> string" where
  "getNote ls i = noteOrEmpty (getNotesMap ls) i"

definition setNote :: "string \<Rightarrow> string \<Rightarrow> storage \<Rightarrow> storage" where
  "setNote i note ls =
     (let notes = getNotesMap ls;
          v = trim (if note = [] then [] else note)
      in if v \<noteq> [] then setNotesMap (notes(i \<mapsto> v)) ls
         else setNotesMap (notes(i := None)) ls)"

subsection \<open>Numbers as text\<close>

text \<open>
  \<^verbatim>\<open>`${Date.now()}`\<close>: an integer timestamp is written in decimal, a negative one
  with a leading minus sign.
\<close>

definition digitChar :: "nat \<Rightarrow> char" where
  "digitChar d = char_of (48 + d)"

function decimal :: "nat \<Rightarrow> string" where
  "decimal n = (if n < 10 then [digitChar n] else decimal (n div 10) @ [digitChar (n mod 10)])"
  by pat_completeness auto
termination
  by (relation "measure (\<lambda>n. n)") auto

declare decimal.simps [simp del]

definition numberToString :: "int \<Rightarrow> string" where
  "numberToString i = (if i < 0 then CHR ''-'' # decimal (nat (- i)) else decimal (nat i))"

subsection \<open>The item source\<close>

record item =
  item_id :: string
  sourceUrl :: string
  displayUrl :: string
  filename :: string
  addedAt :: int

datatype js_error = Error (message: string)

datatype fetch_outcome = Resolved | Rejected js_error

text \<open>
  What one round-trip (one call of \<^verbatim>\<open>getRandomCoffeeItem\<close>) reads from its environment,
  in the order of the reads: the clock and the random generator for the cache-buster, the
  outcome of the awaited \<^verbatim>\<open>fetch\<close>, then clock and generator for \<^verbatim>\<open>makeId\<close>, the ISO
  time for \<^verbatim>\<open>makeFilename\<close> and the clock for \<^verbatim>\<open>addedAt\<close>. A random draw is given as
  the text \<^verbatim>\<open>Math.random().toString(16)\<close>, a date as \<^verbatim>\<open>new Date().toISOString()\<close>.
\<close>

record trip =
  probe_now :: int
  probe_random :: string
  probe_fetch :: fetch_outcome
  id_now :: int
  id_random :: string
  iso_now :: string
  added_now :: int

definition BASE_URL :: string where
  "BASE_URL = ''https://coffee.alexflipnote.dev''"

definition RANDOM_IMAGE_URL :: string where
  "RANDOM_IMAGE_URL = BASE_URL @ ''/random''"

definition makeId :: "trip \<Rightarrow> string" where
  "makeId t = ''cf_'' @ numberToString (id_now t) @ ''_'' @ drop 2 (id_random t)"

definition makeFilename :: "trip \<Rightarrow> string" where
  "makeFilename t =
     ''coffee_''
     @ map (\<lambda>c. if c = CHR '':'' \<or> c = CHR ''.'' then CHR ''-'' else c) (iso_now t)
     @ ''.jpg''"

definition probeApiReachable :: "trip \<Rightarrow> js_error + string" where
  "probeApiReachable t =
     (let cacheBust = ''t='' @ numberToString (probe_now t) @ ''_'' @ drop 2 (probe_random t);
          probeUrl = RANDOM_IMAGE_URL @ ''?'' @ cacheBust
      in case probe_fetch t of
           Rejected err \<Rightarrow> Inl err
         | Resolved \<Rightarrow> Inr probeUrl)"

definition getRandomCoffeeItem :: "trip \<Rightarrow> js_error + item" where
  "getRandomCoffeeItem t =
     (case probeApiReachable t of
        Inl err \<Rightarrow> Inl err
      | Inr url \<Rightarrow>
          Inr \<lparr>item_id = makeId t, sourceUrl = url, displayUrl = url,
               filename = makeFilename t, addedAt = added_now t\<rparr>)"

text \<open>
  \<^verbatim>\<open>for (let i = 0; i < count; i++) out.push(await getRandomCoffeeItem());\<close>
  The environment gives the readings of round-trip \<open>i\<close> as \<open>env i\<close>; a rejected fetch
  leaves the loop with the error. The count \<open>cnt\<close> is an integer.
\<close>

function fetchBatch_loop :: "(nat \<Rightarrow> trip) \<Rightarrow> int \<Rightarrow> nat \<Rightarrow> item list \<Rightarrow> js_error + item list" where
  "fetchBatch_loop env cnt i out =
     (if int i < cnt then
        (case getRandomCoffeeItem (env i) of
           Inl err \<Rightarrow> Inl err
         | Inr it \<Rightarrow> fetchBatch_loop env cnt (i + 1) (out @ [it]))
      else Inr out)"
  by pat_completeness auto
termination
  by (relation "measure (\<lambda>(env, cnt, i, out). nat (cnt - int i))") auto

declare fetchBatch_loop.simps [simp del]

definition fetchBatch :: "(nat \<Rightarrow> trip) \<Rightarrow> int \<Rightarrow> js_error + item list" where
  "fetchBatch env cnt = fetchBatch_loop env cnt 0 []"

subsection \<open>Search and sort\<close>

definition applySearch :: "storage \<Rightarrow> item list \<Rightarrow> string \<Rightarrow> item list" where
  "applySearch ls list q =
     (let qq = norm (Some q) in
      if qq = [] then list
      else
        let notes = getNotesMap ls in
        filter (\<lambda>it.
          let hay1 = norm (Some (filename it));
              hay2 = norm (Some (noteOrEmpty notes (item_id it)))
          in includesStr hay1 qq \<or> includesStr hay2 qq) list)"

text \<open>
  \<^verbatim>\<open>Array.prototype.sort(compareFn)\<close> is a stable sort: with a consistent comparison
  function the result is the one ordering of the elements that is sorted and keeps the
  elements that compare equal in their former order. Insertion from the right, each
  element in front of the first one it does not exceed, computes it.
\<close>

fun insertSorted :: "('a \<Rightarrow> 'a \<Rightarrow> int) \<Rightarrow> 'a \<Rightarrow> 'a list \<Rightarrow> 'a list" where
  "insertSorted cmp x [] = [x]"
| "insertSorted cmp x (y # ys) =
     (if cmp x y \<le> 0 then x # y # ys else y # insertSorted cmp x ys)"

definition arraySort :: "('a \<Rightarrow> 'a \<Rightarrow> int) \<Rightarrow> 'a list \<Rightarrow> 'a list" where
  "arraySort cmp xs = foldr (insertSorted cmp) xs []"

text \<open>
  The four comparison functions of \<^verbatim>\<open>applySort\<close>. \<^verbatim>\<open>String.prototype.localeCompare\<close>
  is the host's collation and is a parameter \<open>lc\<close> of the model.
\<close>

definition cmpNewest :: "item \<Rightarrow> item \<Rightarrow> int" where
  "cmpNewest a b = addedAt b - addedAt a"

definition cmpAz :: "(string \<Rightarrow> string \<Rightarrow> int) \<Rightarrow> item \<Rightarrow> item \<Rightarrow> int" where
  "cmpAz lc a b = lc (filename a) (filename b)"

definition cmpZa :: "(string \<Rightarrow> string \<Rightarrow> int) \<Rightarrow> item \<Rightarrow> item \<Rightarrow> int" where
  "cmpZa lc a b = lc (filename b) (filename a)"

definition cmpFav :: "storage \<Rightarrow> item \<Rightarrow> item \<Rightarrow> int" where
  "cmpFav ls a b =
     (let af = (if isFavorite ls (item_id a) then 1 else 0);
          bf = (if isFavorite ls (item_id b) then 1 else 0)
      in if bf \<noteq> af then bf - af else addedAt b - addedAt a)"

definition applySort :: "(string \<Rightarrow> string \<Rightarrow> int) \<Rightarrow> storage \<Rightarrow> item list \<Rightarrow> string \<Rightarrow> item list" where
  "applySort lc ls list mode =
     (let out = list in
      if mode = ''newest'' then arraySort cmpNewest out
      else if mode = ''az'' then arraySort (cmpAz lc) out
      else if mode = ''za'' then arraySort (cmpZa lc) out
      else if mode = ''fav'' then arraySort (cmpFav ls) out
      else out)"

text \<open>
  The same function with the arrays held in a store, so that the identity of an array
  is visible: a reference is an index into the store, \<^verbatim>\<open>[...list]\<close> allocates a new
  array with the elements of \<open>list\<close>, and \<^verbatim>\<open>out.sort(...)\<close> overwrites the array \<open>out\<close>
  refers to. The function returns the store it leaves and the reference it returns.
\<close>

type_synonym ref = nat
type_synonym arrays = "item list list"

definition spread :: "arrays \<Rightarrow> ref \<Rightarrow> arrays \<times> ref" where
  "spread h r = (h @ [h ! r], length h)"

definition sortInPlace :: "(item \<Rightarrow> item \<Rightarrow> int) \<Rightarrow> arrays \<Rightarrow> ref \<Rightarrow> arrays" where
  "sortInPlace cmp h r = h[r := arraySort cmp (h ! r)]"

definition applySort_store ::
  "(string \<Rightarrow> string \<Rightarrow> int) \<Rightarrow> storage \<Rightarrow> arrays \<Rightarrow> ref \<Rightarrow> string \<Rightarrow> arrays \<times> ref" where
  "applySort_store lc ls h list mode =
     (let (h1, out) = spread h list in
      if mode = ''newest'' then (sortInPlace cmpNewest h1 out, out)
      else if mode = ''az'' then (sortInPlace (cmpAz lc) h1 out, out)
      else if mode = ''za'' then (sortInPlace (cmpZa lc) h1 out, out)
      else if mode = ''fav'' then (sortInPlace (cmpFav ls) h1 out, out)
      else (h1, out))"

subsection \<open>Application state, rendering and the event handlers\<close>

text \<open>
  The globals \<^verbatim>\<open>items\<close>, \<^verbatim>\<open>query\<close>, \<^verbatim>\<open>sortMode\<close> and \<^verbatim>\<open>isLoading\<close>, the storage, and
  the DOM properties the handlers read and write. A card of the results grid is the
  item it shows with the favorite badge and the note text read when it was rendered.
  \<^verbatim>\<open>setLoading\<close> gives one value to the \<^verbatim>\<open>disabled\<close> property of all eight controls,
  which is one field here; the two counter pills are not part of the model.
\<close>

record card =
  card_item :: item
  card_fav :: bool
  card_note :: string

record app =
  items :: "item list"
  query :: string
  sortMode :: string
  isLoading :: bool
  localStorage :: storage
  searchInput_value :: string
  errorBox_hidden :: bool
  errorBox_textContent :: string
  loadingBox_hidden :: bool
  controls_disabled :: bool
  resultsGrid :: "card list"
  emptyState_hidden :: bool

definition setLoading :: "bool \<Rightarrow> app \<Rightarrow> app" where
  "setLoading loading st =
     st\<lparr>isLoading := loading, loadingBox_hidden := \<not> loading, controls_disabled := loading\<rparr>"

definition showError :: "string \<Rightarrow> app \<Rightarrow> app" where
  "showError msg st =
     (if msg = [] then st\<lparr>errorBox_hidden := True, errorBox_textContent := []\<rparr>
      else st\<lparr>errorBox_hidden := False, errorBox_textContent := msg\<rparr>)"

definition renderCard :: "storage \<Rightarrow> item \<Rightarrow> card" where
  "renderCard ls it =
     \<lparr>card_item = it, card_fav = isFavorite ls (item_id it), card_note = getNote ls (item_id it)\<rparr>"

definition render :: "(string \<Rightarrow> string \<Rightarrow> int) \<Rightarrow> app \<Rightarrow> app" where
  "render lc st =
     (let filtered = applySearch (localStorage st) (items st) (query st);
          sorted = applySort lc (localStorage st) filtered (sortMode st);
          st1 = st\<lparr>resultsGrid := []\<rparr>
      in if length sorted = 0 then st1\<lparr>emptyState_hidden := False\<rparr>
         else st1\<lparr>emptyState_hidden := True,
                  resultsGrid := map (renderCard (localStorage st)) sorted\<rparr>)"

definition onSearchInput :: "(string \<Rightarrow> string \<Rightarrow> int) \<Rightarrow> app \<Rightarrow> app" where
  "onSearchInput lc st =
     (let raw = searchInput_value st;
          trimmed = trim raw
      in if \<not> isValidSearch trimmed
         then showError ''Invalid input: use letters, numbers, spaces, -, _, or # only.'' st
         else render lc ((showError [] st)\<lparr>query := trimmed\<rparr>))"

text \<open>
  The argument of \<^verbatim>\<open>brew\<close>: a number, here an integer, or a value of another type.
\<close>

datatype js_value = Number int | NotNumber

definition brew :: "(string \<Rightarrow> string \<Rightarrow> int) \<Rightarrow> (nat \<Rightarrow> trip) \<Rightarrow> js_value \<Rightarrow> app \<Rightarrow> app" where
  "brew lc env cnt st =
     (case cnt of
        NotNumber \<Rightarrow> showError ''Invalid request: brew count must be greater than 0.'' st
      | Number c \<Rightarrow>
          if c \<le> 0 then showError ''Invalid request: brew count must be greater than 0.'' st
          else
            let st1 = setLoading True st;
                st2 = showError [] st1;
                st3 = (case fetchBatch env c of
                         Inr batch \<Rightarrow> render lc (st2\<lparr>items := batch @ items st2\<rparr>)
                       | Inl err \<Rightarrow>
                           showError (''Failed API call: ''
                             @ (if message err = [] then ''Failed to fetch'' else message err)) st2)
            in setLoading False st3)"

subsection \<open>Specification-level notions and sample data\<close>

text \<open>
  What ECMAScript asks of \<^verbatim>\<open>localeCompare\<close>: it is a consistent comparison function.
  Swapping the arguments swaps the sign, and "not greater" is transitive.
\<close>

definition consistentComparison :: "(string \<Rightarrow> string \<Rightarrow> int) \<Rightarrow> bool" where
  "consistentComparison lc \<longleftrightarrow>
     (\<forall>a b. (lc a b < 0) = (0 < lc b a))
     \<and> (\<forall>a b c. lc a b \<le> 0 \<longrightarrow> lc b c \<le> 0 \<longrightarrow> lc a c \<le> 0)"

text \<open>No two positions of the list hold filenames that the collation takes as equal.\<close>

definition noEqualFilenames :: "(string \<Rightarrow> string \<Rightarrow> int) \<Rightarrow> item list \<Rightarrow> bool" where
  "noEqualFilenames lc list \<longleftrightarrow>
     (\<forall>i < length list. \<forall>j < length list.
        i \<noteq> j \<longrightarrow> lc (filename (list ! i)) (filename (list ! j)) \<noteq> 0)"

text \<open>
  One consistent comparison function, used where a concrete one is needed: the
  lexicographic order of the code units.
\<close>

fun codeUnitCompare :: "string \<Rightarrow> string \<Rightarrow> int" where
  "codeUnitCompare [] [] = 0"
| "codeUnitCompare [] (y # ys) = - 1"
| "codeUnitCompare (x # xs) [] = 1"
| "codeUnitCompare (x # xs) (y # ys) =
     (if (of_char x :: nat) < of_char y then - 1
      else if (of_char y :: nat) < of_char x then 1
      else codeUnitCompare xs ys)"

definition storage0 :: storage where
  "storage0 =
     \<lparr>ls_favorites = Some [''cf_2_b'' \<mapsto> ()], ls_notes = Some [''cf_1_a'' \<mapsto> ''dark roast'']\<rparr>"

definition itemA :: item where
  "itemA = \<lparr>item_id = ''cf_1_a'', sourceUrl = ''u1'', displayUrl = ''u1'',
            filename = ''Coffee_ABC.jpg'', addedAt = 1\<rparr>"

definition itemB :: item where
  "itemB = \<lparr>item_id = ''cf_2_b'', sourceUrl = ''u2'', displayUrl = ''u2'',
            filename = ''coffee_x.jpg'', addedAt = 2\<rparr>"

definition itemC :: item where
  "itemC = \<lparr>item_id = ''cf_3_c'', sourceUrl = ''u3'', displayUrl = ''u3'',
            filename = ''coffee_x.jpg'', addedAt = 3\<rparr>"

definition sampleTrip :: "nat \<Rightarrow> trip" where
  "sampleTrip i =
     \<lparr>probe_now = 1000 + int i, probe_random = ''0.8c2f'', probe_fetch = Resolved,
      id_now = 1000 + int i, id_random = ''0.5a1e'',
      iso_now = ''1970-01-01T00:00:01.00'' @ decimal i @ ''Z'', added_now = 1000 + int i\<rparr>"

text \<open>Every round-trip succeeds, one millisecond after the other.\<close>

definition envOk :: "nat \<Rightarrow> trip" where
  "envOk i = sampleTrip i"

text \<open>The second round-trip is rejected.\<close>

definition envSecondFails :: "nat \<Rightarrow> trip" where
  "envSecondFails i =
     (if i = 1 then (sampleTrip i)\<lparr>probe_fetch := Rejected (Error ''Failed to fetch'')\<rparr>
      else sampleTrip i)"

text \<open>
  Every round-trip succeeds within the same millisecond, and the generator repeats
  its draw.
\<close>

definition envSameInstant :: "nat \<Rightarrow> trip" where
  "envSameInstant i = sampleTrip 0"

definition app0 :: app where
  "app0 =
     \<lparr>items = [itemB, itemA], query = ''coffee'', sortMode = ''newest'', isLoading = False,
      localStorage = storage0, searchInput_value = ''abc!'',
      errorBox_hidden = True, errorBox_textContent = [],
      loadingBox_hidden = True, controls_disabled = False,
      resultsGrid = map (renderCard storage0) [itemB, itemA], emptyState_hidden = True\<rparr>"

section \<open>Properties\<close>

subsection \<open>Strings\<close>

lemma trim_eq_Nil_iff: "trim s = [] \<longleftrightarrow> (\<forall>c\<in>set s. isWhiteSpace c)"
proof
  assume "trim s = []"
  then have all: "\<forall>c\<in>set (dropWhile isWhiteSpace s). isWhiteSpace c"
    by (simp add: trim_def)
  have "dropWhile isWhiteSpace s = []"
  proof (rule ccontr)
    assume ne: "dropWhile isWhiteSpace s \<noteq> []"
    then have "\<not> isWhiteSpace (hd (dropWhile isWhiteSpace s))"
      by (rule hd_dropWhile)
    moreover have "hd (dropWhile isWhiteSpace s) \<in> set (dropWhile isWhiteSpace s)"
      using ne by simp
    ultimately show False using all by blast
  qed
  then show "\<forall>c\<in>set s. isWhiteSpace c" by simp
next
  assume "\<forall>c\<in>set s. isWhiteSpace c"
  then show "trim s = []"
    by (auto simp: trim_def dest: set_dropWhileD)
qed

lemma trim_idem: "trim (trim s) = trim s"
proof -
  define u where "u = dropWhile isWhiteSpace s"
  define t where "t = rev (dropWhile isWhiteSpace (rev u))"
  have t: "trim s = t" by (simp add: trim_def t_def u_def)
  have front: "dropWhile isWhiteSpace t = t"
  proof (cases "t = []")
    case True then show ?thesis by simp
  next
    case False
    have "u = t @ rev (takeWhile isWhiteSpace (rev u))"
    proof -
      have "rev (takeWhile isWhiteSpace (rev u) @ dropWhile isWhiteSpace (rev u)) = u"
        by (simp only: takeWhile_dropWhile_id rev_rev_ident)
      then show ?thesis by (simp only: rev_append t_def)
    qed
    then have "hd u = hd t" using False by (metis hd_append2)
    moreover have "u \<noteq> []" using False by (auto simp: t_def)
    then have "\<not> isWhiteSpace (hd u)" unfolding u_def by (rule hd_dropWhile)
    ultimately have "\<not> isWhiteSpace (hd t)" by simp
    then show ?thesis using False by (cases t) auto
  qed
  have "trim t = rev (dropWhile isWhiteSpace (rev t))" by (simp add: trim_def front)
  also have "rev t = dropWhile isWhiteSpace (rev u)" by (simp add: t_def)
  also have "rev (dropWhile isWhiteSpace (dropWhile isWhiteSpace (rev u))) = t"
    by (simp add: t_def)
  finally show ?thesis by (simp add: t)
qed

text \<open>
  \<^const>\<open>trim\<close> removes white space at both ends and nothing else.
\<close>

lemma trim_decompose:
  "\<exists>pre post. s = pre @ trim s @ post
     \<and> (\<forall>c\<in>set pre. isWhiteSpace c) \<and> (\<forall>c\<in>set post. isWhiteSpace c)"
proof -
  define u where "u = dropWhile isWhiteSpace s"
  define post where "post = rev (takeWhile isWhiteSpace (rev u))"
  have "rev (takeWhile isWhiteSpace (rev u) @ dropWhile isWhiteSpace (rev u)) = u"
    by (simp only: takeWhile_dropWhile_id rev_rev_ident)
  then have u: "u = trim s @ post"
    by (simp only: rev_append trim_def u_def post_def)
  have "s = takeWhile isWhiteSpace s @ u"
    by (simp add: u_def)
  with u have "s = takeWhile isWhiteSpace s @ trim s @ post" by simp
  moreover have "\<forall>c\<in>set (takeWhile isWhiteSpace s). isWhiteSpace c"
    by (auto dest: set_takeWhileD)
  moreover have "\<forall>c\<in>set post. isWhiteSpace c"
    by (auto simp: post_def dest: set_takeWhileD)
  ultimately show ?thesis by blast
qed

lemma trim_ends:
  assumes "trim s \<noteq> []"
  shows "\<not> isWhiteSpace (hd (trim s)) \<and> \<not> isWhiteSpace (last (trim s))"
proof -
  have "dropWhile isWhiteSpace (rev (dropWhile isWhiteSpace s)) \<noteq> []"
    using assms by (simp add: trim_def)
  then have "\<not> isWhiteSpace (hd (dropWhile isWhiteSpace (rev (dropWhile isWhiteSpace s))))"
    by (rule hd_dropWhile)
  then have l: "\<not> isWhiteSpace (last (trim s))"
    using assms by (simp add: trim_def last_rev)
  have "length (trim (trim s)) \<le> length (dropWhile isWhiteSpace (trim s))"
    using length_dropWhile_le [of isWhiteSpace "rev (dropWhile isWhiteSpace (trim s))"]
    by (simp add: trim_def [of "trim s"])
  then have le: "length (trim s) \<le> length (dropWhile isWhiteSpace (trim s))"
    by (simp add: trim_idem)
  have "\<not> isWhiteSpace (hd (trim s))"
  proof
    assume ws: "isWhiteSpace (hd (trim s))"
    from assms obtain c cs where t: "trim s = c # cs" by (cases "trim s") auto
    with ws have "dropWhile isWhiteSpace (trim s) = dropWhile isWhiteSpace cs" by simp
    with le t have "Suc (length cs) \<le> length (dropWhile isWhiteSpace cs)" by simp
    with length_dropWhile_le [of isWhiteSpace cs] show False by simp
  qed
  with l show ?thesis by simp
qed

lemma startsWith_prefix: "startsWith hay needle \<longleftrightarrow> prefix needle hay"
  by (induction hay needle rule: startsWith.induct) auto

lemma includesStr_sublist: "includesStr hay needle \<longleftrightarrow> sublist needle hay"
  by (induction hay) (auto simp: startsWith_prefix sublist_Cons_right)

subsection \<open>Identifiers\<close>

text \<open>
  The decimal text of a timestamp determines it and holds no underscore, so an id
  determines the timestamp and the random suffix it was made from.
\<close>

lemma decimal_not_Nil: "decimal n \<noteq> []"
  by (subst decimal.simps) simp

lemma of_char_digitChar: "d < 10 \<Longrightarrow> (of_char (digitChar d) :: nat) = 48 + d"
  by (simp add: digitChar_def)

lemma decimal_digits: "c \<in> set (decimal n) \<Longrightarrow> 48 \<le> (of_char c :: nat) \<and> (of_char c :: nat) \<le> 57"
proof (induction n rule: decimal.induct)
  case (1 n)
  show ?case
  proof (cases "n < 10")
    case True
    with "1.prems" have "c = digitChar n" by (simp add: decimal.simps [of n])
    with True show ?thesis by (simp add: of_char_digitChar)
  next
    case False
    with "1.prems" have "c \<in> set (decimal (n div 10)) \<or> c = digitChar (n mod 10)"
      by (auto simp: decimal.simps [of n])
    then show ?thesis
    proof
      assume "c \<in> set (decimal (n div 10))"
      with "1.IH" False show ?thesis by simp
    next
      assume "c = digitChar (n mod 10)"
      then show ?thesis by (simp add: of_char_digitChar)
    qed
  qed
qed

lemma digitChar_inj: "a < 10 \<Longrightarrow> b < 10 \<Longrightarrow> digitChar a = digitChar b \<Longrightarrow> a = b"
proof -
  assume a: "a < 10" and b: "b < 10" and eq: "digitChar a = digitChar b"
  from eq have "(of_char (digitChar a) :: nat) = of_char (digitChar b)" by (rule arg_cong)
  then have "48 + a = 48 + b" by (simp only: of_char_digitChar [OF a] of_char_digitChar [OF b])
  then show "a = b" by simp
qed

lemma decimal_inj: "decimal m = decimal n \<Longrightarrow> m = n"
proof (induction m arbitrary: n rule: decimal.induct)
  case (1 m)
  show ?case
  proof (cases "m < 10")
    case m: True
    show ?thesis
    proof (cases "n < 10")
      case True
      with m "1.prems" show ?thesis
        by (simp add: decimal.simps [of m] decimal.simps [of n] digitChar_inj)
    next
      case False
      with m "1.prems" have "length (decimal (n div 10)) = 0"
        by (simp add: decimal.simps [of m] decimal.simps [of n])
      with decimal_not_Nil show ?thesis by simp
    qed
  next
    case m: False
    show ?thesis
    proof (cases "n < 10")
      case True
      with m "1.prems" have "length (decimal (m div 10)) = 0"
        by (simp add: decimal.simps [of m] decimal.simps [of n])
      with decimal_not_Nil show ?thesis by simp
    next
      case False
      with m "1.prems" have eq: "decimal (m div 10) = decimal (n div 10)"
        and d: "digitChar (m mod 10) = digitChar (n mod 10)"
        by (simp_all add: decimal.simps [of m] decimal.simps [of n])
      from "1.IH" [OF m eq] have "m div 10 = n div 10" .
      moreover from d have "m mod 10 = n mod 10" by (simp add: digitChar_inj)
      ultimately show ?thesis by (metis div_mult_mod_eq)
    qed
  qed
qed

lemma numberToString_chars:
  "c \<in> set (numberToString i) \<Longrightarrow> c \<noteq> CHR ''_''"
  using decimal_digits [of c] by (auto simp: numberToString_def split: if_splits)

lemma numberToString_inj: "numberToString i = numberToString j \<Longrightarrow> i = j"
proof -
  assume eq: "numberToString i = numberToString j"
  have neg: False if "CHR ''-'' # decimal a = decimal b" for a b
  proof -
    have "CHR ''-'' \<in> set (decimal b)" using that by (metis list.set_intros(1))
    from decimal_digits [OF this] show False by simp
  qed
  show ?thesis
  proof (cases "i < 0")
    case i: True
    show ?thesis
    proof (cases "j < 0")
      case True
      with i eq have "nat (- i) = nat (- j)" by (simp add: numberToString_def decimal_inj)
      with i True show ?thesis by simp
    next
      case False
      with i eq neg [of "nat (- i)" "nat j"] show ?thesis by (simp add: numberToString_def)
    qed
  next
    case i: False
    show ?thesis
    proof (cases "j < 0")
      case True
      with i eq neg [of "nat (- j)" "nat i"] show ?thesis by (simp add: numberToString_def)
    next
      case False
      with i eq have "nat i = nat j" by (simp add: numberToString_def decimal_inj)
      with i False show ?thesis by simp
    qed
  qed
qed

lemma split_at_separator:
  assumes "c \<notin> set xs" "c \<notin> set ys" "xs @ c # r = ys @ c # s"
  shows "xs = ys \<and> r = s"
proof -
  have "takeWhile (\<lambda>x. x \<noteq> c) (xs @ c # r) = xs" "takeWhile (\<lambda>x. x \<noteq> c) (ys @ c # s) = ys"
    using assms(1,2) by (auto simp add: takeWhile_tail)
  with assms(3) have "xs = ys" by simp
  with assms(3) show ?thesis by simp
qed

lemma makeId_eq_iff:
  "makeId t = makeId u \<longleftrightarrow>
     id_now t = id_now u \<and> drop 2 (id_random t) = drop 2 (id_random u)"
proof
  assume "makeId t = makeId u"
  then have "numberToString (id_now t) @ CHR ''_'' # drop 2 (id_random t)
    = numberToString (id_now u) @ CHR ''_'' # drop 2 (id_random u)"
    by (simp add: makeId_def)
  from split_at_separator [OF _ _ this] numberToString_chars
  have "numberToString (id_now t) = numberToString (id_now u)
    \<and> drop 2 (id_random t) = drop 2 (id_random u)" by blast
  then show "id_now t = id_now u \<and> drop 2 (id_random t) = drop 2 (id_random u)"
    by (simp add: numberToString_inj)
next
  assume "id_now t = id_now u \<and> drop 2 (id_random t) = drop 2 (id_random u)"
  then show "makeId t = makeId u" by (simp add: makeId_def)
qed

subsection \<open>Favorites and notes\<close>

text \<open>
  C8. For every id and every favorites map, two calls of \<^verbatim>\<open>toggleFavorite(id)\<close> in a row
  give back the favorites map the first call started from, and with it the favorite
  status of the id.
\<close>

theorem toggleFavorite_twice:
  "getFavoritesMap (toggleFavorite i (toggleFavorite i ls)) = getFavoritesMap ls
   \<and> isFavorite (toggleFavorite i (toggleFavorite i ls)) i = isFavorite ls i"
proof -
  have "getFavoritesMap (toggleFavorite i (toggleFavorite i ls)) k = getFavoritesMap ls k" for k
    by (cases "getFavoritesMap ls i")
       (simp_all add: toggleFavorite_def setFavoritesMap_def getFavoritesMap_def loadJSON_def)
  then have "getFavoritesMap (toggleFavorite i (toggleFavorite i ls)) = getFavoritesMap ls"
    by (simp add: fun_eq_iff)
  then show ?thesis by (simp add: isFavorite_def)
qed

text \<open>
  C7. Saving a note that is empty or all white space removes the notes entry of the id,
  and \<^verbatim>\<open>getNote\<close> then gives the empty string; saving a note with any other character
  stores the trimmed text, which is not empty, and \<^verbatim>\<open>getNote\<close> gives it back.
\<close>

theorem setNote_blank_or_text:
  "((\<forall>c\<in>set note. isWhiteSpace c) \<longrightarrow>
      getNotesMap (setNote i note ls) i = None \<and> getNote (setNote i note ls) i = [])
   \<and> ((\<exists>c\<in>set note. \<not> isWhiteSpace c) \<longrightarrow>
      getNotesMap (setNote i note ls) i = Some (trim note) \<and> trim note \<noteq> []
      \<and> getNote (setNote i note ls) i = trim note)"
  using trim_eq_Nil_iff [of "note"]
  by (auto simp: setNote_def setNotesMap_def getNotesMap_def getNote_def noteOrEmpty_def
      loadJSON_def)


theorem setNote_blank_or_text_witness:
  "getNotesMap (setNote ''cf_1_a'' ''   '' storage0) ''cf_1_a'' = None
   \<and> getNote (setNote ''cf_1_a'' ''   '' storage0) ''cf_1_a'' = []
   \<and> getNotesMap (setNote ''cf_1_a'' ''  mild '' storage0) ''cf_1_a'' = Some ''mild''
   \<and> getNote (setNote ''cf_1_a'' ''  mild '' storage0) ''cf_1_a'' = ''mild''"
  using setNote_blank_or_text [of "''   ''" "''cf_1_a''" storage0]
    setNote_blank_or_text [of "''  mild ''" "''cf_1_a''" storage0]
  by (simp add: isWhiteSpace_def trim_def)

text \<open>
  C9. \<^verbatim>\<open>toggleFavorite(id)\<close> leaves the favorites entry of every other id as it was,
  and \<^verbatim>\<open>setNote(id, note)\<close> the notes entry of every other id; neither touches the
  other map.
\<close>

theorem toggle_setNote_frame:
  "k \<noteq> i \<Longrightarrow>
     getFavoritesMap (toggleFavorite i ls) k = getFavoritesMap ls k
     \<and> getNotesMap (setNote i note ls) k = getNotesMap ls k
     \<and> getNotesMap (toggleFavorite i ls) = getNotesMap ls
     \<and> getFavoritesMap (setNote i note ls) = getFavoritesMap ls"
  by (simp add: toggleFavorite_def setFavoritesMap_def getFavoritesMap_def
      setNote_def setNotesMap_def getNotesMap_def loadJSON_def Let_def)

theorem toggle_setNote_frame_witness:
  "getFavoritesMap (toggleFavorite ''cf_1_a'' storage0) ''cf_2_b'' = Some ()
   \<and> getNotesMap (setNote ''cf_2_b'' ''milky'' storage0) ''cf_1_a'' = Some ''dark roast''"
  using toggle_setNote_frame [of "''cf_2_b''" "''cf_1_a''" storage0]
    toggle_setNote_frame [of "''cf_1_a''" "''cf_2_b''" storage0 "''milky''"]
  by (simp add: storage0_def getFavoritesMap_def getNotesMap_def loadJSON_def)

subsection \<open>Search\<close>

text \<open>
  C4. With an empty normalized query \<^verbatim>\<open>applySearch\<close> returns the list as it is.
  Otherwise it keeps exactly the items for which the normalized query is a substring
  (\<^const>\<open>sublist\<close>: some text before, the query, some text after) of the normalized
  filename or of the normalized note, an item without a note counting as the empty note.
\<close>

theorem applySearch_spec:
  "applySearch ls list q =
     (if norm (Some q) = [] then list
      else filter (\<lambda>it.
             sublist (norm (Some q)) (norm (Some (filename it)))
             \<or> sublist (norm (Some q))
                  (norm (Some (case getNotesMap ls (item_id it) of None \<Rightarrow> [] | Some n \<Rightarrow> n))))
           list)"
proof -
  have "noteOrEmpty m k = (case m k of None \<Rightarrow> [] | Some n \<Rightarrow> n)" for m k
    by (simp add: noteOrEmpty_def split: option.splits)
  then show ?thesis
    by (simp add: applySearch_def Let_def includesStr_sublist)
qed


theorem applySearch_spec_witness:
  "applySearch storage0 [itemB, itemA] '' ABC '' = [itemA]
   \<and> applySearch storage0 [itemB, itemA] '' Roast'' = [itemA]
   \<and> applySearch storage0 [itemB, itemA] ''   '' = [itemB, itemA]"
  using applySearch_spec [of storage0 "[itemB, itemA]" "'' ABC ''"]
    applySearch_spec [of storage0 "[itemB, itemA]" "'' Roast''"]
    applySearch_spec [of storage0 "[itemB, itemA]" "''   ''"]
  by (simp add: norm_def trim_def toLowerCase_def toLowerCase_char_def isWhiteSpace_def
      itemA_def itemB_def storage0_def getNotesMap_def loadJSON_def sublist_Cons_right
      char_of_def bit_Suc_0_iff)

text \<open>
  C10. The result of \<^verbatim>\<open>applySearch\<close> is a subsequence of the input: the kept items,
  in their order, none added and none repeated more often than in the input.
\<close>

theorem applySearch_subseq:
  "subseq (applySearch ls list q) list
   \<and> set (applySearch ls list q) \<subseteq> set list
   \<and> mset (applySearch ls list q) \<subseteq># mset list"
  by (simp add: applySearch_def Let_def)


subsection \<open>Rejected search input\<close>

text \<open>
  C6. When the trimmed search text is not empty and holds a character outside
  \<^verbatim>\<open>[a-zA-Z0-9 _#-]\<close>, \<^verbatim>\<open>onSearchInput\<close> keeps the query, the rendered grid and the rest
  of the state, and shows the "Invalid input" message in the error box.
\<close>

theorem onSearchInput_rejects:
  assumes "trim (searchInput_value st) \<noteq> []"
    and "\<exists>c\<in>set (trim (searchInput_value st)). \<not> allowedSearchChar c"
  shows "query (onSearchInput lc st) = query st
    \<and> resultsGrid (onSearchInput lc st) = resultsGrid st
    \<and> emptyState_hidden (onSearchInput lc st) = emptyState_hidden st
    \<and> items (onSearchInput lc st) = items st
    \<and> sortMode (onSearchInput lc st) = sortMode st
    \<and> localStorage (onSearchInput lc st) = localStorage st
    \<and> \<not> errorBox_hidden (onSearchInput lc st)
    \<and> errorBox_textContent (onSearchInput lc st)
        = ''Invalid input: use letters, numbers, spaces, -, _, or # only.''"
proof -
  have "\<not> isValidSearch (trim (searchInput_value st))"
    using assms by (auto simp: isValidSearch_def trim_idem list_all_iff)
  then show ?thesis
    by (simp add: onSearchInput_def Let_def showError_def)
qed

theorem onSearchInput_rejects_witness:
  "query (onSearchInput codeUnitCompare app0) = ''coffee''
   \<and> resultsGrid (onSearchInput codeUnitCompare app0) = map (renderCard storage0) [itemB, itemA]
   \<and> \<not> errorBox_hidden (onSearchInput codeUnitCompare app0)
   \<and> errorBox_textContent (onSearchInput codeUnitCompare app0)
        = ''Invalid input: use letters, numbers, spaces, -, _, or # only.''"
  using onSearchInput_rejects [of app0 codeUnitCompare]
  by (simp add: app0_def trim_def isWhiteSpace_def allowedSearchChar_def)

subsection \<open>The batch loop\<close>

lemma getRandomCoffeeItem_Rejected:
  "probe_fetch t = Rejected e \<Longrightarrow> getRandomCoffeeItem t = Inl e"
  by (simp add: getRandomCoffeeItem_def probeApiReachable_def)

lemma getRandomCoffeeItem_Inr_id:
  "getRandomCoffeeItem t = Inr it \<Longrightarrow> item_id it = makeId t"
  by (auto simp: getRandomCoffeeItem_def split: sum.splits)

lemma fetchBatch_loop_Inr:
  "fetchBatch_loop env n i out = Inr res \<Longrightarrow>
     \<exists>new. res = out @ new \<and> length new = nat (n - int i)
       \<and> (\<forall>j < length new. getRandomCoffeeItem (env (i + j)) = Inr (new ! j))"
proof (induction env n i out rule: fetchBatch_loop.induct)
  case (1 env n i out)
  show ?case
  proof (cases "int i < n")
    case False
    with "1.prems" have "res = out" by (simp add: fetchBatch_loop.simps [of env n i out])
    with False show ?thesis by simp
  next
    case True
    show ?thesis
    proof (cases "getRandomCoffeeItem (env i)")
      case (Inl err)
      with True "1.prems" show ?thesis by (simp add: fetchBatch_loop.simps [of env n i out])
    next
      case (Inr it)
      with True "1.prems" have "fetchBatch_loop env n (i + 1) (out @ [it]) = Inr res"
        by (simp add: fetchBatch_loop.simps [of env n i out])
      from "1.IH" [OF True Inr this] obtain new where
        res: "res = (out @ [it]) @ new" and len: "length new = nat (n - int (i + 1))"
        and nth: "\<forall>j < length new. getRandomCoffeeItem (env (i + 1 + j)) = Inr (new ! j)"
        by blast
      have "\<forall>j < length (it # new). getRandomCoffeeItem (env (i + j)) = Inr ((it # new) ! j)"
      proof (intro allI impI)
        fix j assume "j < length (it # new)"
        then show "getRandomCoffeeItem (env (i + j)) = Inr ((it # new) ! j)"
          using Inr nth by (cases j) auto
      qed
      moreover have "length (it # new) = nat (n - int i)" using len True by simp
      moreover have "res = out @ (it # new)" using res by simp
      ultimately show ?thesis by blast
    qed
  qed
qed

lemma fetchBatch_loop_fails:
  "i \<le> k \<Longrightarrow> int k < n \<Longrightarrow> probe_fetch (env k) = Rejected e \<Longrightarrow>
     \<exists>err. fetchBatch_loop env n i out = Inl err"
proof (induction env n i out rule: fetchBatch_loop.induct)
  case (1 env n i out)
  from "1.prems" have lt: "int i < n" by simp
  show ?case
  proof (cases "getRandomCoffeeItem (env i)")
    case (Inl err)
    with lt show ?thesis by (simp add: fetchBatch_loop.simps [of env n i out])
  next
    case (Inr it)
    have "i \<noteq> k" using Inr getRandomCoffeeItem_Rejected [OF "1.prems"(3)] by auto
    with "1.prems" have "i + 1 \<le> k" by simp
    from "1.IH" [OF lt Inr this "1.prems"(2) "1.prems"(3)]
    show ?thesis using lt Inr by (simp add: fetchBatch_loop.simps [of env n i out])
  qed
qed

lemma fetchBatch_loop_succeeds:
  "(\<And>k. i \<le> k \<Longrightarrow> int k < n \<Longrightarrow> probe_fetch (env k) = Resolved) \<Longrightarrow>
     \<exists>res. fetchBatch_loop env n i out = Inr res"
proof (induction env n i out rule: fetchBatch_loop.induct)
  case (1 env n i out)
  show ?case
  proof (cases "int i < n")
    case False
    then show ?thesis by (simp add: fetchBatch_loop.simps [of env n i out])
  next
    case True
    then have "probe_fetch (env i) = Resolved" using "1.prems" by simp
    then obtain it where it: "getRandomCoffeeItem (env i) = Inr it"
      by (simp add: getRandomCoffeeItem_def probeApiReachable_def)
    have "\<exists>res. fetchBatch_loop env n (i + 1) (out @ [it]) = Inr res"
      by (rule "1.IH" [OF True it]) (simp add: "1.prems")
    then show ?thesis using True it by (simp add: fetchBatch_loop.simps [of env n i out])
  qed
qed

lemma brew_invalid_count:
  "items (brew lc env NotNumber st) = items st"
  "c \<le> 0 \<Longrightarrow> items (brew lc env (Number c) st) = items st"
  by (simp_all add: brew_def showError_def)

lemma fetchBatch_succeeds:
  "(\<And>k. int k < n \<Longrightarrow> probe_fetch (env k) = Resolved) \<Longrightarrow> \<exists>out. fetchBatch env n = Inr out"
  unfolding fetchBatch_def by (rule fetchBatch_loop_succeeds) simp

text \<open>Evaluating a batch on a concrete environment.\<close>

lemmas eval_defs = fetchBatch_def fetchBatch_loop.simps getRandomCoffeeItem_def probeApiReachable_def
   makeId_def makeFilename_def numberToString_def decimal.simps digitChar_def
   char_of_def bit_Suc_0_iff sampleTrip_def RANDOM_IMAGE_URL_def BASE_URL_def

text \<open>
  C2 (amended). A successful \<^verbatim>\<open>fetchBatch(n)\<close> returns \<open>n\<close> items, item \<open>i\<close> being the
  one round-trip \<open>i\<close> builds. Their ids are pairwise distinct exactly when no two
  round-trips of the batch read both the same \<^verbatim>\<open>Date.now()\<close> and the same random suffix
  in \<^verbatim>\<open>makeId\<close>.
\<close>

theorem fetchBatch_success:
  assumes "fetchBatch env n = Inr out"
  shows "length out = nat n
    \<and> (\<forall>i < nat n. getRandomCoffeeItem (env i) = Inr (out ! i))
    \<and> (distinct (map item_id out) \<longleftrightarrow>
         inj_on (\<lambda>i. (id_now (env i), drop 2 (id_random (env i)))) {..< nat n})"
proof -
  from fetchBatch_loop_Inr [of env n 0 "[]" out] assms
  have len: "length out = nat n"
    and nth: "\<forall>i < nat n. getRandomCoffeeItem (env i) = Inr (out ! i)"
    by (auto simp: fetchBatch_def)
  have ids: "item_id (out ! i) = makeId (env i)" if "i < nat n" for i
    using nth that getRandomCoffeeItem_Inr_id by simp
  have "distinct (map item_id out) \<longleftrightarrow>
      (\<forall>i < nat n. \<forall>j < nat n. i \<noteq> j \<longrightarrow> makeId (env i) \<noteq> makeId (env j))"
    using len ids by (simp add: distinct_conv_nth)
  also have "\<dots> \<longleftrightarrow> inj_on (\<lambda>i. (id_now (env i), drop 2 (id_random (env i)))) {..< nat n}"
    by (auto simp: inj_on_def makeId_eq_iff)
  finally show ?thesis using len nth by simp
qed

theorem fetchBatch_success_witness:
  "(case fetchBatch envOk 3 of
      Inl err \<Rightarrow> False
    | Inr out \<Rightarrow> length out = 3
        \<and> map item_id out = [''cf_1000_5a1e'', ''cf_1001_5a1e'', ''cf_1002_5a1e'']
        \<and> distinct (map item_id out))"
proof -
  have run: "fetchBatch envOk 3 = Inr (projr (fetchBatch envOk 3))"
    by (simp add: eval_defs envOk_def)
  have inj: "inj_on (\<lambda>i. (id_now (envOk i), drop 2 (id_random (envOk i)))) {..< nat 3}"
    by (simp add: inj_on_def envOk_def sampleTrip_def)
  from fetchBatch_success [OF run] inj
  have "distinct (map item_id (projr (fetchBatch envOk 3)))" by simp
  then show ?thesis
    by (simp add: eval_defs envOk_def)
qed

text \<open>
  C2 as stated fails: two round-trips within one millisecond whose random draws
  coincide succeed with the same id twice.
\<close>

theorem fetchBatch_ids_counterexample:
  "(case fetchBatch envSameInstant 2 of
      Inl err \<Rightarrow> False
    | Inr out \<Rightarrow> map item_id out = [''cf_1000_5a1e'', ''cf_1000_5a1e'']
        \<and> \<not> distinct (map item_id out))"
  by (simp add: eval_defs envSameInstant_def)


subsection \<open>A failed batch\<close>

text \<open>
  C1. When some round-trip \<open>k\<close> of a batch of \<open>c\<close> is rejected (the second one is
  \<open>k = 1\<close>), \<^verbatim>\<open>fetchBatch\<close> fails, and \<^verbatim>\<open>brew\<close> leaves \<^verbatim>\<open>items\<close> as it was: nothing of
  the batch is added. The rendered grid stays too, the busy state is cleared and the
  error box is shown.
\<close>

theorem brew_failed_batch:
  assumes "int k < c" and "probe_fetch (env k) = Rejected e"
  shows "(\<exists>err. fetchBatch env c = Inl err)
    \<and> items (brew lc env (Number c) st) = items st
    \<and> resultsGrid (brew lc env (Number c) st) = resultsGrid st
    \<and> \<not> isLoading (brew lc env (Number c) st)
    \<and> \<not> errorBox_hidden (brew lc env (Number c) st)"
proof -
  from fetchBatch_loop_fails [of 0 k c env e "[]"] assms
  obtain err where err: "fetchBatch env c = Inl err"
    by (auto simp: fetchBatch_def)
  moreover have "\<not> c \<le> 0" using assms(1) by simp
  ultimately show ?thesis
    by (simp add: brew_def Let_def setLoading_def showError_def)
qed

theorem brew_failed_batch_witness:
  "items (brew codeUnitCompare envSecondFails (Number 6) app0) = [itemB, itemA]
   \<and> resultsGrid (brew codeUnitCompare envSecondFails (Number 6) app0) = resultsGrid app0"
  using brew_failed_batch [of 1 6 envSecondFails "Error ''Failed to fetch''" codeUnitCompare app0]
  by (simp add: envSecondFails_def app0_def)

subsection \<open>Sorting\<close>

text \<open>
  \<^const>\<open>arraySort\<close> permutes its argument, and with a comparison function that is total
  and transitive the result is sorted with respect to it.
\<close>

lemma mset_insertSorted: "mset (insertSorted cmp x ys) = add_mset x (mset ys)"
  by (induction ys) auto

lemma mset_arraySort: "mset (arraySort cmp xs) = mset xs"
  by (induction xs) (auto simp: arraySort_def mset_insertSorted)

lemma set_arraySort: "set (arraySort cmp xs) = set xs"
  using mset_arraySort [of cmp xs] by (metis set_mset_mset)

lemma arraySort_Cons: "arraySort cmp (x # xs) = insertSorted cmp x (arraySort cmp xs)"
  by (simp add: arraySort_def)

lemma set_insertSorted: "set (insertSorted cmp x ys) = insert x (set ys)"
  using mset_insertSorted [of cmp x ys] by (metis set_mset_mset set_mset_add_mset_insert)

lemma sorted_insertSorted:
  assumes total: "\<And>a b. \<not> cmp a b \<le> 0 \<Longrightarrow> cmp b a \<le> 0"
    and trans: "\<And>a b c. cmp a b \<le> 0 \<Longrightarrow> cmp b c \<le> 0 \<Longrightarrow> cmp a c \<le> 0"
  shows "sorted_wrt (\<lambda>a b. cmp a b \<le> 0) ys \<Longrightarrow>
    sorted_wrt (\<lambda>a b. cmp a b \<le> 0) (insertSorted cmp x ys)"
proof (induction ys)
  case Nil
  then show ?case by simp
next
  case (Cons y ys)
  show ?case
  proof (cases "cmp x y \<le> 0")
    case True
    then have "\<forall>z\<in>set ys. cmp x z \<le> 0" using Cons.prems trans by auto
    with True Cons.prems show ?thesis by simp
  next
    case False
    then have "cmp y x \<le> 0" by (rule total)
    with False Cons show ?thesis by (auto simp: set_insertSorted)
  qed
qed

lemma sorted_arraySort:
  assumes total: "\<And>a b. \<not> cmp a b \<le> 0 \<Longrightarrow> cmp b a \<le> 0"
    and trans: "\<And>a b c. cmp a b \<le> 0 \<Longrightarrow> cmp b c \<le> 0 \<Longrightarrow> cmp a c \<le> 0"
  shows "sorted_wrt (\<lambda>a b. cmp a b \<le> 0) (arraySort cmp xs)"
proof (induction xs)
  case Nil
  then show ?case by (simp add: arraySort_def)
next
  case (Cons x xs)
  from sorted_insertSorted [of cmp, OF total trans Cons.IH]
  show ?case by (simp add: arraySort_Cons)
qed

text \<open>
  The sort is stable: the elements that compare equal to a given one keep their order.
\<close>

lemma stable_insertSorted:
  assumes anti: "\<And>a b. (cmp a b < 0) = (0 < cmp b a)"
    and trans: "\<And>a b c. cmp a b \<le> 0 \<Longrightarrow> cmp b c \<le> 0 \<Longrightarrow> cmp a c \<le> 0"
  shows "filter (\<lambda>y. cmp k y = 0) (insertSorted cmp x ys)
    = (if cmp k x = 0 then x # filter (\<lambda>y. cmp k y = 0) ys else filter (\<lambda>y. cmp k y = 0) ys)"
proof (induction ys)
  case Nil
  then show ?case by simp
next
  case (Cons y ys)
  show ?case
  proof (cases "cmp x y \<le> 0")
    case True
    then show ?thesis by simp
  next
    case False
    have "\<not> (cmp k x = 0 \<and> cmp k y = 0)"
    proof
      assume eq: "cmp k x = 0 \<and> cmp k y = 0"
      then have "cmp x k \<le> 0" using anti [of k x] anti [of x k] by simp
      moreover have "cmp k y \<le> 0" using eq by simp
      ultimately have "cmp x y \<le> 0" by (rule trans)
      with False show False by simp
    qed
    with False Cons.IH show ?thesis by auto
  qed
qed

lemma arraySort_stable:
  assumes anti: "\<And>a b. (cmp a b < 0) = (0 < cmp b a)"
    and trans: "\<And>a b c. cmp a b \<le> 0 \<Longrightarrow> cmp b c \<le> 0 \<Longrightarrow> cmp a c \<le> 0"
  shows "filter (\<lambda>y. cmp k y = 0) (arraySort cmp xs) = filter (\<lambda>y. cmp k y = 0) xs"
proof (induction xs)
  case Nil
  then show ?case by (simp add: arraySort_def)
next
  case (Cons x xs)
  from stable_insertSorted [of cmp k x "arraySort cmp xs", OF anti trans] Cons
  show ?case by (simp add: arraySort_Cons)
qed


text \<open>A symmetric relation that holds between all elements survives the sort.\<close>

lemma pairwise_insertSorted:
  assumes sym: "\<And>a b. T a b \<Longrightarrow> T b a"
  shows "sorted_wrt T (x # ys) \<Longrightarrow> sorted_wrt T (insertSorted cmp x ys)"
proof (induction ys)
  case Nil
  then show ?case by simp
next
  case (Cons y ys)
  show ?case
  proof (cases "cmp x y \<le> 0")
    case True
    with Cons.prems show ?thesis by simp
  next
    case False
    have "sorted_wrt T (insertSorted cmp x ys)" using Cons by auto
    moreover have "\<forall>z\<in>set (insertSorted cmp x ys). T y z"
      using Cons.prems sym by (auto simp: set_insertSorted)
    ultimately show ?thesis using False by simp
  qed
qed

lemma pairwise_arraySort:
  assumes sym: "\<And>a b. T a b \<Longrightarrow> T b a"
  shows "sorted_wrt T xs \<Longrightarrow> sorted_wrt T (arraySort cmp xs)"
proof (induction xs)
  case Nil
  then show ?case by (simp add: arraySort_def)
next
  case (Cons x xs)
  then have "sorted_wrt T (x # arraySort cmp xs)" by (simp add: set_arraySort)
  from pairwise_insertSorted [of T, OF sym this]
  show ?case by (simp add: arraySort_Cons)
qed

lemma insertSorted_last:
  "\<forall>z\<in>set ys. \<not> cmp x z \<le> 0 \<Longrightarrow> insertSorted cmp x ys = ys @ [x]"
  by (induction ys) auto

lemma arraySort_descending:
  "sorted_wrt (\<lambda>a b. \<not> cmp a b \<le> 0) xs \<Longrightarrow> arraySort cmp xs = rev xs"
proof (induction xs)
  case Nil
  then show ?case by (simp add: arraySort_def)
next
  case (Cons x xs)
  then have "arraySort cmp xs = rev xs" and "\<forall>z\<in>set (rev xs). \<not> cmp x z \<le> 0" by auto
  then show ?case by (simp add: arraySort_Cons insertSorted_last)
qed

lemma sorted_wrt_conj:
  "sorted_wrt P xs \<Longrightarrow> sorted_wrt Q xs \<Longrightarrow> sorted_wrt (\<lambda>a b. P a b \<and> Q a b) xs"
  by (induction xs) auto

lemma noEqualFilenames_sorted_wrt:
  "noEqualFilenames lc list \<longleftrightarrow>
     sorted_wrt (\<lambda>a b. lc (filename a) (filename b) \<noteq> 0 \<and> lc (filename b) (filename a) \<noteq> 0) list"
proof
  assume "noEqualFilenames lc list"
  then show "sorted_wrt (\<lambda>a b. lc (filename a) (filename b) \<noteq> 0 \<and> lc (filename b) (filename a) \<noteq> 0) list"
    by (auto simp: noEqualFilenames_def sorted_wrt_iff_nth_less)
next
  assume s: "sorted_wrt (\<lambda>a b. lc (filename a) (filename b) \<noteq> 0 \<and> lc (filename b) (filename a) \<noteq> 0) list"
  show "noEqualFilenames lc list"
    unfolding noEqualFilenames_def
  proof (intro allI impI)
    fix i j assume "i < length list" "j < length list" "i \<noteq> j"
    then consider "i < j" | "j < i" by linarith
    then show "lc (filename (list ! i)) (filename (list ! j)) \<noteq> 0"
      using s \<open>i < length list\<close> \<open>j < length list\<close>
      by cases (auto simp: sorted_wrt_iff_nth_less)
  qed
qed

lemma arraySort_za_az:
  assumes "consistentComparison lc" and "noEqualFilenames lc list"
  shows "arraySort (cmpZa lc) (arraySort (cmpAz lc) list) = rev (arraySort (cmpAz lc) list)"
proof -
  from assms(1) have anti: "\<And>a b. (lc a b < 0) = (0 < lc b a)"
    and trans: "\<And>a b c. lc a b \<le> 0 \<Longrightarrow> lc b c \<le> 0 \<Longrightarrow> lc a c \<le> 0"
    unfolding consistentComparison_def by blast+
  have total: "lc b a \<le> 0" if "\<not> lc a b \<le> 0" for a b
    using that anti [of b a] by simp
  let ?A = "arraySort (cmpAz lc) list"
  have "sorted_wrt (\<lambda>a b. cmpAz lc a b \<le> 0) ?A"
    by (rule sorted_arraySort) (auto simp: cmpAz_def total intro: trans)
  moreover have "sorted_wrt (\<lambda>a b. lc (filename a) (filename b) \<noteq> 0 \<and> lc (filename b) (filename a) \<noteq> 0) ?A"
    by (rule pairwise_arraySort) (use assms(2) in \<open>auto simp: noEqualFilenames_sorted_wrt\<close>)
  ultimately have "sorted_wrt (\<lambda>a b. cmpAz lc a b \<le> 0
      \<and> (lc (filename a) (filename b) \<noteq> 0 \<and> lc (filename b) (filename a) \<noteq> 0)) ?A"
    by (rule sorted_wrt_conj)
  then have "sorted_wrt (\<lambda>a b. \<not> cmpZa lc a b \<le> 0) ?A"
  proof (rule sorted_wrt_mono_rel [rotated])
    fix a b
    assume "cmpAz lc a b \<le> 0 \<and> (lc (filename a) (filename b) \<noteq> 0 \<and> lc (filename b) (filename a) \<noteq> 0)"
    then have "lc (filename a) (filename b) < 0" by (simp add: cmpAz_def)
    then show "\<not> cmpZa lc a b \<le> 0" using anti [of "filename a" "filename b"] by (simp add: cmpZa_def)
  qed
  then show ?thesis by (rule arraySort_descending)
qed

lemma sorted_newest:
  "sorted_wrt (\<lambda>a b. addedAt b \<le> addedAt a) (arraySort cmpNewest list)"
proof -
  have "sorted_wrt (\<lambda>a b. cmpNewest a b \<le> 0) (arraySort cmpNewest list)"
    by (rule sorted_arraySort) (auto simp: cmpNewest_def)
  then show ?thesis by (simp add: cmpNewest_def)
qed

lemma mset_applySort: "mset (applySort lc ls list mode) = mset list"
  by (simp add: applySort_def mset_arraySort)

text \<open>The sample collation is a consistent comparison function.\<close>

lemma codeUnitCompare_anti: "(codeUnitCompare a b < 0) = (0 < codeUnitCompare b a)"
  by (induction a b rule: codeUnitCompare.induct) auto

lemma codeUnitCompare_trans:
  "codeUnitCompare a b \<le> 0 \<Longrightarrow> codeUnitCompare b c \<le> 0 \<Longrightarrow> codeUnitCompare a c \<le> 0"
proof (induction a b arbitrary: c rule: codeUnitCompare.induct)
  case 1
  then show ?case by simp
next
  case (2 y ys)
  from "2.prems"(2) show ?case by (cases c) simp_all
next
  case (3 x xs)
  then show ?case by simp
next
  case (4 x xs y ys)
  show ?case
  proof (cases c)
    case Nil
    with "4.prems"(2) show ?thesis by simp
  next
    case (Cons z zs)
    let ?x = "of_char x :: nat" and ?y = "of_char y :: nat" and ?z = "of_char z :: nat"
    from "4.prems"(1) have xy: "?x < ?y \<or> (?x = ?y \<and> codeUnitCompare xs ys \<le> 0)"
      by (cases "?x < ?y"; cases "?y < ?x") simp_all
    from "4.prems"(2) Cons have yz: "?y < ?z \<or> (?y = ?z \<and> codeUnitCompare ys zs \<le> 0)"
      by (cases "?y < ?z"; cases "?z < ?y") simp_all
    show ?thesis
    proof (cases "?x < ?z")
      case True
      with Cons show ?thesis by simp
    next
      case False
      with xy yz have eq: "?x = ?y" "?y = ?z"
        and le: "codeUnitCompare xs ys \<le> 0" "codeUnitCompare ys zs \<le> 0"
        by auto
      from eq have "\<not> ?x < ?y" "\<not> ?y < ?x" by simp_all
      from "4.IH" [OF this le] have "codeUnitCompare xs zs \<le> 0" .
      with eq Cons show ?thesis by simp
    qed
  qed
qed


lemma consistent_codeUnitCompare: "consistentComparison codeUnitCompare"
  unfolding consistentComparison_def
  using codeUnitCompare_anti codeUnitCompare_trans by blast

text \<open>
  C3 (amended). When \<^verbatim>\<open>localeCompare\<close> is a consistent comparison function and no two
  items of the list have filenames that it takes as equal, sorting the \<^verbatim>\<open>"az"\<close> result
  with mode \<^verbatim>\<open>"za"\<close> gives the reverse of the \<^verbatim>\<open>"az"\<close> result. For every list and every
  \<^verbatim>\<open>localeCompare\<close>, with no condition on the filenames, mode \<^verbatim>\<open>"newest"\<close> gives a
  permutation of the list in which \<^verbatim>\<open>addedAt\<close> never increases.
\<close>

theorem applySort_az_za_newest:
  "(consistentComparison lc \<and> noEqualFilenames lc list \<longrightarrow>
      applySort lc ls (applySort lc ls list ''az'') ''za'' = rev (applySort lc ls list ''az''))
   \<and> sorted_wrt (\<lambda>a b. addedAt b \<le> addedAt a) (applySort lc ls list ''newest'')
   \<and> mset (applySort lc ls list ''newest'') = mset list"
proof -
  have "applySort lc ls (applySort lc ls list ''az'') ''za'' = rev (applySort lc ls list ''az'')"
    if "consistentComparison lc" and "noEqualFilenames lc list"
    using arraySort_za_az [OF that] by (simp add: applySort_def)
  moreover have "sorted_wrt (\<lambda>a b. addedAt b \<le> addedAt a) (applySort lc ls list ''newest'')"
    using sorted_newest [of list] by (simp add: applySort_def)
  moreover have "mset (applySort lc ls list ''newest'') = mset list"
    by (simp add: applySort_def mset_arraySort)
  ultimately show ?thesis by blast
qed

theorem applySort_az_za_newest_witness:
  "applySort codeUnitCompare storage0 (applySort codeUnitCompare storage0 [itemB, itemA] ''az'') ''za''
     = rev (applySort codeUnitCompare storage0 [itemB, itemA] ''az'')
   \<and> applySort codeUnitCompare storage0 [itemB, itemA] ''az'' = [itemA, itemB]
   \<and> sorted_wrt (\<lambda>a b. addedAt b \<le> addedAt a)
        (applySort codeUnitCompare storage0 [itemB, itemC] ''newest'')
   \<and> applySort codeUnitCompare storage0 [itemB, itemC] ''newest'' = [itemC, itemB]"
proof -
  have "noEqualFilenames codeUnitCompare [itemB, itemA]"
    by (simp add: noEqualFilenames_sorted_wrt itemA_def itemB_def)
  with consistent_codeUnitCompare
    applySort_az_za_newest [of codeUnitCompare "[itemB, itemA]" storage0]
  have "applySort codeUnitCompare storage0
          (applySort codeUnitCompare storage0 [itemB, itemA] ''az'') ''za''
      = rev (applySort codeUnitCompare storage0 [itemB, itemA] ''az'')"
    by blast
  moreover from applySort_az_za_newest [of codeUnitCompare "[itemB, itemC]" storage0]
  have "sorted_wrt (\<lambda>a b. addedAt b \<le> addedAt a)
          (applySort codeUnitCompare storage0 [itemB, itemC] ''newest'')"
    by blast
  ultimately show ?thesis
    by (simp add: applySort_def arraySort_def cmpAz_def cmpNewest_def
        itemA_def itemB_def itemC_def)
qed

text \<open>
  C3 as stated fails: the sort is stable, so two items with the same filename keep
  their order under \<^verbatim>\<open>"az"\<close> and again under \<^verbatim>\<open>"za"\<close>, and the reverse swaps them.
\<close>

theorem applySort_az_za_counterexample:
  "applySort codeUnitCompare storage0 (applySort codeUnitCompare storage0 [itemB, itemC] ''az'') ''za''
     \<noteq> rev (applySort codeUnitCompare storage0 [itemB, itemC] ''az'')"
  by (simp add: applySort_def arraySort_def cmpAz_def cmpZa_def itemB_def itemC_def)

text \<open>The store version returns a new array holding what \<^const>\<open>applySort\<close> computes.\<close>

lemma applySort_store_content:
  "list < length h \<Longrightarrow>
     applySort_store lc ls h list mode = (h @ [applySort lc ls (h ! list) mode], length h)"
  by (simp add: applySort_store_def spread_def sortInPlace_def applySort_def)

text \<open>
  C5. \<^verbatim>\<open>applySort\<close> leaves the array it is given, and every other array of the store,
  as it was: it returns a reference to a new array. For a mode other than
  \<^verbatim>\<open>"newest"\<close>, \<^verbatim>\<open>"az"\<close>, \<^verbatim>\<open>"za"\<close> and \<^verbatim>\<open>"fav"\<close> the new array holds the elements of
  the input in the same order.
\<close>

theorem applySort_copy_identity:
  assumes "list < length h"
  shows "fst (applySort_store lc ls h list mode) ! list = h ! list
    \<and> take (length h) (fst (applySort_store lc ls h list mode)) = h
    \<and> snd (applySort_store lc ls h list mode) \<noteq> list
    \<and> fst (applySort_store lc ls h list mode) ! snd (applySort_store lc ls h list mode)
        = applySort lc ls (h ! list) mode
    \<and> (mode \<notin> {''newest'', ''az'', ''za'', ''fav''} \<longrightarrow>
         fst (applySort_store lc ls h list mode) ! snd (applySort_store lc ls h list mode)
           = h ! list
         \<and> applySort lc ls (h ! list) mode = h ! list)"
  using assms
  by (simp add: applySort_store_content nth_append applySort_def)

theorem applySort_copy_identity_witness:
  "applySort_store codeUnitCompare storage0 [[itemA, itemB]] 0 ''newest''
     = ([[itemA, itemB], [itemB, itemA]], 1)
   \<and> applySort_store codeUnitCompare storage0 [[itemA, itemB]] 0 ''oldest''
     = ([[itemA, itemB], [itemA, itemB]], 1)"
  using applySort_copy_identity [of 0 "[[itemA, itemB]]" codeUnitCompare storage0 "''newest''"]
    applySort_copy_identity [of 0 "[[itemA, itemB]]" codeUnitCompare storage0 "''oldest''"]
  by (simp add: applySort_store_def spread_def sortInPlace_def arraySort_def cmpNewest_def
      itemA_def itemB_def)


end
